theory Spec2Isabelle
  imports Complex_Main "HOL-Library.Multiset"
begin

section \<open>Data model\<close>

text \<open>
  The notebook \<^verbatim>\<open>playground.ipynb\<close> drives three classes of the repository whose
  source files are not part of the checked sources: \<^verbatim>\<open>Conversation\<close>,
  \<^verbatim>\<open>ConversationSet\<close> and the module \<^verbatim>\<open>controllers.file_system\<close>. Their data is
  laid out here as the specification's data model describes it (MessageNode,
  ConversationTree, ConversationCollection); the functions of the notebook itself are
  translated from its cells.
\<close>

text \<open>Python exceptions that the modelled code can raise.\<close>

datatype py_error =
    ZeroDivisionError
  | IndexError
  | ValueError
  | OverflowError
  | FileNotFoundError
  | IsADirectoryError

text \<open>Timestamps are seconds since the epoch (Python floats, taken here as reals).\<close>

type_synonym timestamp = real

text \<open>
  Modelled from the spec: the author roles of a message node (the class of the nodes is
  missing from the sources).
\<close>

datatype role = User | Assistant | System | Tool

text \<open>
  Modelled from the spec: a MessageNode, one turn of a conversation tree (the class is
  missing from the sources). \<^verbatim>\<open>parent_id\<close> is absent for the root; \<^verbatim>\<open>plugin_name\<close>
  is present only on tool invocations.
\<close>

record message_node =
  node_id :: string
  parent_id :: "string option"
  author_role :: role
  content_type :: string
  plugin_name :: "string option"
  node_create_time :: "timestamp option"
  text_payload :: string

text \<open>
  Modelled from the spec: a ConversationTree (the class \<^verbatim>\<open>Conversation\<close> is missing
  from the sources). A conversation owns its nodes: the mapping from node id to node is
  kept as the list of the nodes, each carrying its own id (an arena indexed by id). The
  title may be missing or empty.
\<close>

record conversation =
  conv_id :: string
  title :: "string option"
  nodes :: "message_node list"
  root_id :: string
  create_time :: "timestamp option"
  update_time :: "timestamp option"

section \<open>Paths\<close>

text \<open>
  A \<^verbatim>\<open>pathlib.Path\<close> is the list of its parts; an absolute path starts with the part
  \<^verbatim>\<open>/\<close>. \<^verbatim>\<open>p / s\<close> splits the string \<^verbatim>\<open>s\<close> at the separator, drops empty
  and \<^verbatim>\<open>.\<close> segments, and appends the segments to \<^verbatim>\<open>p\<close>; an absolute \<^verbatim>\<open>s\<close>
  replaces \<^verbatim>\<open>p\<close>.
\<close>

type_synonym path = "string list"

fun split_sep :: "string \<Rightarrow> string \<Rightarrow> string list" where
  "split_sep acc [] = [rev acc]"
| "split_sep acc (c # cs) =
     (if c = CHR ''/'' then rev acc # split_sep [] cs else split_sep (c # acc) cs)"

definition segments :: "string \<Rightarrow> string list" where
  "segments s = filter (\<lambda>x. x \<noteq> [] \<and> x \<noteq> ''.'') (split_sep [] s)"

definition joinpath :: "path \<Rightarrow> string \<Rightarrow> path" where
  "joinpath p s =
     (case s of
        [] \<Rightarrow> p
      | c # cs \<Rightarrow> if c = CHR ''/'' then ''/'' # segments s else p @ segments s)"



section \<open>The notebook's global state\<close>

text \<open>
  The notebook's first cell binds two module-level variables that its functions read:
  \<^verbatim>\<open>output_path\<close> and \<^verbatim>\<open>conversation_set\<close>. Functions that read them take the
  record of the globals as their first argument.
\<close>

record notebook_globals =
  output_path :: path
  conversation_list :: "conversation list"

section \<open>Statistics and selection: \<^verbatim>\<open>get_top_convos\<close>\<close>

text \<open>
  \<^verbatim>\<open>sum(stats) / len(stats)\<close>: true division, which raises on a zero divisor. The
  quotient is kept exact; the rounding to a float is not modelled.
\<close>

definition py_avg :: "int list \<Rightarrow> py_error + rat" where
  "py_avg stats =
     (if length stats = 0 then Inl ZeroDivisionError
      else Inr (of_int (sum_list stats) / of_int (int (length stats))))"

text \<open>\<^verbatim>\<open>sorted(stats)[len(stats) // 2]\<close>\<close>

definition py_median :: "int list \<Rightarrow> py_error + int" where
  "py_median stats =
     (let i = length stats div 2
      in if i < length (sort stats) then Inr (sort stats ! i) else Inl IndexError)"

text \<open>\<^verbatim>\<open>max(stats)\<close>\<close>

definition py_max :: "int list \<Rightarrow> py_error + int" where
  "py_max stats =
     (case stats of [] \<Rightarrow> Inl ValueError | x # xs \<Rightarrow> Inr (fold max xs x))"

text \<open>
  \<^verbatim>\<open>sorted(conversation_list, key=attr_func, reverse=True)\<close>: the list is reversed,
  sorted stably in ascending key order, and reversed again.
\<close>

definition convos_sorted_by_attr :: "('a \<Rightarrow> int) \<Rightarrow> 'a list \<Rightarrow> 'a list" where
  "convos_sorted_by_attr attr_func convs = rev (sort_key attr_func (rev convs))"

text \<open>The slice \<^verbatim>\<open>xs[:count]\<close>; a negative count drops from the end.\<close>

definition py_slice_to :: "'a list \<Rightarrow> int \<Rightarrow> 'a list" where
  "py_slice_to xs cnt =
     (if cnt < 0 then take (length xs - nat (- cnt)) xs else take (nat cnt) xs)"

text \<open>The conversations the loop of \<^verbatim>\<open>get_top_convos\<close> visits: \<^verbatim>\<open>convos_sorted_by_attr[:count]\<close>.\<close>

definition top_convos :: "('a \<Rightarrow> int) \<Rightarrow> int \<Rightarrow> 'a list \<Rightarrow> 'a list" where
  "top_convos attr_func cnt convs = py_slice_to (convos_sorted_by_attr attr_func convs) cnt"

text \<open>
  What one call of \<^verbatim>\<open>get_top_convos\<close> reports: the three printed statistics under
  their label, and the calls \<^verbatim>\<open>fs.save_conversation_to_file(conversation, filepath)\<close>
  it makes, in order. The method \<^verbatim>\<open>sanitized_title\<close> of the conversation class is the
  parameter \<^verbatim>\<open>sanitize\<close>.
\<close>

record top_report =
  label :: string
  avg_stat :: rat
  median_stat :: int
  max_stat :: int
  saved :: "(path \<times> conversation) list"

definition file_path :: "(conversation \<Rightarrow> string) \<Rightarrow> notebook_globals \<Rightarrow> conversation \<Rightarrow> path" where
  "file_path sanitize g convo = joinpath (output_path g) (sanitize convo @ ''.md'')"

definition get_top_convos ::
  "(conversation \<Rightarrow> string) \<Rightarrow> notebook_globals \<Rightarrow> (conversation \<Rightarrow> int) \<Rightarrow> string \<Rightarrow> int
     \<Rightarrow> py_error + top_report" where
  "get_top_convos sanitize g attr_func description cnt =
     (let stats = map attr_func (conversation_list g) in
      case py_avg stats of
        Inl e \<Rightarrow> Inl e
      | Inr avg \<Rightarrow>
     (case py_median stats of
        Inl e \<Rightarrow> Inl e
      | Inr med \<Rightarrow>
     (case py_max stats of
        Inl e \<Rightarrow> Inl e
      | Inr mx \<Rightarrow>
          Inr \<lparr>label = description, avg_stat = avg, median_stat = med, max_stat = mx,
               saved = map (\<lambda>convo. (file_path sanitize g convo, convo))
                         (top_convos attr_func cnt (conversation_list g))\<rparr>)))"

section \<open>Clearing the output folder: \<^verbatim>\<open>clear_output\<close>\<close>








section \<open>Week-wise frequencies: \<^verbatim>\<open>create_weekwise_timeseries_graph\<close>\<close>









section \<open>The conversation tree\<close>

text \<open>
  The class \<^verbatim>\<open>Conversation\<close> with its methods \<^verbatim>\<open>leaf_count\<close>,
  \<^verbatim>\<open>message_count\<close> and \<^verbatim>\<open>sanitized_title\<close> is missing from the sources; the
  notebook only calls it.
\<close>

text \<open>
  Modelled from the spec: the children of a node (missing with the class
  \<^verbatim>\<open>Conversation\<close>) are the nodes whose \<^verbatim>\<open>parent_id\<close> is its id.
\<close>

definition children_of :: "conversation \<Rightarrow> string \<Rightarrow> message_node list" where
  "children_of c i = filter (\<lambda>n. parent_id n = Some i) (nodes c)"

text \<open>
  Modelled from the spec: \<^verbatim>\<open>Conversation.leaf_count\<close> (missing from the sources) is the
  number of nodes with zero children.
\<close>

definition leaf_count :: "conversation \<Rightarrow> int" where
  "leaf_count c = int (length (filter (\<lambda>n. children_of c (node_id n) = []) (nodes c)))"

text \<open>
  Modelled from the spec: \<^verbatim>\<open>Conversation.message_count\<close> (missing from the sources) is
  the total number of nodes of the tree, the root included.
\<close>

definition message_count :: "conversation \<Rightarrow> int" where
  "message_count c = int (length (nodes c))"

text \<open>
  Modelled from the spec: the node of a given id in the mapping \<^verbatim>\<open>nodes\<close> (missing with
  the class \<^verbatim>\<open>Conversation\<close>).
\<close>

definition lookup_node :: "conversation \<Rightarrow> string \<Rightarrow> message_node option" where
  "lookup_node c i = find (\<lambda>n. node_id n = i) (nodes c)"

text \<open>
  Modelled from the spec: the tree has no cycle (the constructor that checks it is
  missing from the sources). Following \<^verbatim>\<open>parent_id\<close> from a node reaches the root
  within the given number of steps.
\<close>

fun reaches_root :: "conversation \<Rightarrow> nat \<Rightarrow> string \<Rightarrow> bool" where
  "reaches_root c 0 i = (i = root_id c)"
| "reaches_root c (Suc k) i =
     (i = root_id c \<or>
      (case lookup_node c i of
         None \<Rightarrow> False
       | Some n \<Rightarrow> (case parent_id n of None \<Rightarrow> False | Some p \<Rightarrow> reaches_root c k p)))"

text \<open>
  Modelled from the spec: the invariant of a ConversationTree (the constructor that
  establishes it is missing from the sources). The nodes are not empty and their ids are
  unique; \<^verbatim>\<open>root_id\<close> names a node with no parent; every other node's
  \<^verbatim>\<open>parent_id\<close> resolves within the nodes; and the parent chain of every node reaches
  the root in at most as many steps as there are nodes.
\<close>

definition valid_tree :: "conversation \<Rightarrow> bool" where
  "valid_tree c \<longleftrightarrow>
     nodes c \<noteq> []
     \<and> distinct (map node_id (nodes c))
     \<and> (case lookup_node c (root_id c) of None \<Rightarrow> False | Some r \<Rightarrow> parent_id r = None)
     \<and> list_all (\<lambda>n. node_id n = root_id c
                      \<or> (case parent_id n of
                            None \<Rightarrow> False
                          | Some p \<Rightarrow> p \<in> set (map node_id (nodes c)))) (nodes c)
     \<and> list_all (\<lambda>n. reaches_root c (length (nodes c)) (node_id n)) (nodes c)"

section \<open>Sanitized titles\<close>



section \<open>Grouping by week\<close>

text \<open>
  Modelled from the spec: one step of \<^verbatim>\<open>ConversationSet.grouped_by_week\<close> (missing
  from the sources). A conversation with a \<^verbatim>\<open>create_time\<close> is appended to the group of
  the week that contains it; a conversation without one is put into no group. The week
  boundary policy is the parameter \<^verbatim>\<open>week_start\<close>.
\<close>

definition add_to_week ::
  "(timestamp \<Rightarrow> 'w) \<Rightarrow> ('w \<rightharpoonup> conversation list) \<Rightarrow> conversation \<Rightarrow> ('w \<rightharpoonup> conversation list)" where
  "add_to_week week_start grouped c =
     (case create_time c of
        None \<Rightarrow> grouped
      | Some t \<Rightarrow>
          (case grouped (week_start t) of
             None \<Rightarrow> grouped(week_start t \<mapsto> [c])
           | Some cs \<Rightarrow> grouped(week_start t \<mapsto> cs @ [c])))"

text \<open>
  Modelled from the spec: \<^verbatim>\<open>ConversationSet.grouped_by_week\<close> (missing from the
  sources) maps the start of a calendar week to the conversations whose
  \<^verbatim>\<open>create_time\<close> falls into that week, in collection order.
\<close>

definition grouped_by_week ::
  "(timestamp \<Rightarrow> 'w) \<Rightarrow> conversation list \<Rightarrow> ('w \<rightharpoonup> conversation list)" where
  "grouped_by_week week_start convs = foldl (add_to_week week_start) Map.empty convs"

section \<open>Sorting by a key, descending\<close>

lemma sorted_by_attr_stable:
  "filter (\<lambda>c. attr_func c = k) (convos_sorted_by_attr attr_func convs) = filter (\<lambda>c. attr_func c = k) convs"
  by (simp add: convos_sorted_by_attr_def rev_filter [symmetric] sort_key_stable)

lemma sorted_by_attr_descending:
  "sorted (rev (map attr_func (convos_sorted_by_attr attr_func convs)))"
  by (simp add: convos_sorted_by_attr_def rev_map [symmetric])

lemma sorted_by_attr_mset:
  "mset (convos_sorted_by_attr attr_func convs) = mset convs"
  by (simp add: convos_sorted_by_attr_def)

lemma top_three_of_five:
  "map attr_func [c1, c2, c3, c4, c5] = [1, 5, 3, 5, 2] \<Longrightarrow>
     top_convos attr_func 3 [c1, c2, c3, c4, c5] = [c2, c4, c3]"
  by (simp add: top_convos_def py_slice_to_def convos_sorted_by_attr_def sort_key_def)




text \<open>
  C1. Sorting by a key in descending order is stable: for every key value, the
  conversations with that key stand in the sorted list in the order they have in the
  collection; the keys of the sorted list descend, and the sorted list is a permutation
  of the collection. On five conversations with keys 1, 5, 3, 5, 2 the top three are the
  second, the fourth and the third.
\<close>

theorem sorted_by_key_descending_is_stable:
  "filter (\<lambda>c. attr_func c = k) (convos_sorted_by_attr attr_func convs)
     = filter (\<lambda>c. attr_func c = k) convs
   \<and> sorted (rev (map attr_func (convos_sorted_by_attr attr_func convs)))
   \<and> mset (convos_sorted_by_attr attr_func convs) = mset convs
   \<and> (map attr_func [c1, c2, c3, c4, c5] = [1, 5, 3, 5, 2]
        \<longrightarrow> top_convos attr_func 3 [c1, c2, c3, c4, c5] = [c2, c4, c3])"
  using sorted_by_attr_stable [of attr_func k convs] sorted_by_attr_descending [of attr_func convs]
    sorted_by_attr_mset [of attr_func convs] top_three_of_five [of attr_func c1 c2 c3 c4 c5]
  by blast

theorem sorted_by_key_descending_is_stable_witness:
  "let mk = (\<lambda>i ns. \<lparr>conv_id = i, title = None,
                 nodes = map (\<lambda>(n, p). \<lparr>node_id = n, parent_id = p, author_role = User,
                    content_type = ''text'', plugin_name = None, node_create_time = None,
                    text_payload = ''''\<rparr>) ns,
                 root_id = ''r'', create_time = None, update_time = None\<rparr>);
       c1 = mk ''c1'' [(''r'', None)];
       c2 = mk ''c2'' [(''r'', None), (''a'', Some ''r''), (''b'', Some ''a''), (''c'', Some ''b''), (''d'', Some ''c'')];
       c3 = mk ''c3'' [(''r'', None), (''a'', Some ''r''), (''b'', Some ''r'')];
       c4 = mk ''c4'' [(''r'', None), (''a'', Some ''r''), (''b'', Some ''r''), (''c'', Some ''a''), (''d'', Some ''b'')];
       c5 = mk ''c5'' [(''r'', None), (''a'', Some ''r'')]
   in map message_count [c1, c2, c3, c4, c5] = [1, 5, 3, 5, 2]
      \<and> top_convos message_count 3 [c1, c2, c3, c4, c5] = [c2, c4, c3]
      \<and> filter (\<lambda>c. message_count c = 5) (convos_sorted_by_attr message_count [c1, c2, c3, c4, c5]) = [c2, c4]"
  unfolding Let_def
  using sorted_by_key_descending_is_stable [where attr_func = message_count and k = 5]
  by (simp add: message_count_def)

section \<open>Statistics over an empty collection\<close>

text \<open>
  C3. A statistic requested over a collection with no conversation fails with an error:
  the average, the median and the maximum of the empty list each raise, and
  \<^verbatim>\<open>get_top_convos\<close> on an empty collection raises the first of them, whatever the
  key function, the label and the count.
\<close>

theorem empty_collection_statistics_fail:
  "py_avg [] = Inl ZeroDivisionError
   \<and> py_median [] = Inl IndexError
   \<and> py_max [] = Inl ValueError
   \<and> get_top_convos sanitize (g\<lparr>conversation_list := []\<rparr>) attr_func description cnt
       = Inl ZeroDivisionError"
  by (simp add: py_avg_def py_median_def py_max_def get_top_convos_def)

section \<open>Facts about paths and the selection\<close>







section \<open>Selecting the top conversations\<close>



section \<open>The median statistic\<close>



section \<open>Names of the saved files\<close>



section \<open>What \<^verbatim>\<open>clear_output\<close> clears\<close>









section \<open>Weekday buckets\<close>













section \<open>Leaves and messages of a conversation tree\<close>

lemma leaf_count_le_message_count: "leaf_count c \<le> message_count c"
  by (simp add: leaf_count_def message_count_def)

lemma valid_tree_root:
  assumes "valid_tree c"
  shows "\<exists>r\<in>set (nodes c). parent_id r = None"
proof -
  from assms obtain r where "lookup_node c (root_id c) = Some r" "parent_id r = None"
    by (auto simp: valid_tree_def split: option.splits)
  then show ?thesis
    by (auto simp: lookup_node_def find_Some_iff)
qed

lemma some_leaf:
  assumes ids: "distinct (map node_id (nodes c))"
    and root: "r \<in> set (nodes c)" "parent_id r = None"
  shows "\<exists>n\<in>set (nodes c). children_of c (node_id n) = []"
proof (rule ccontr)
  let ?N = "set (nodes c)"
  let ?P = "{m \<in> ?N. parent_id m \<noteq> None}"
  assume "\<not> (\<exists>n\<in>?N. children_of c (node_id n) = [])"
  then have "\<forall>n\<in>?N. \<exists>m\<in>?N. parent_id m = Some (node_id n)"
    by (auto simp: children_of_def filter_empty_conv)
  then have "node_id ` ?N \<subseteq> (\<lambda>m. the (parent_id m)) ` ?P"
    by (force simp: image_iff)
  then have "card (node_id ` ?N) \<le> card ((\<lambda>m. the (parent_id m)) ` ?P)"
    by (intro card_mono) simp_all
  also have "\<dots> \<le> card ?P"
    by (intro card_image_le) simp
  also have "\<dots> < card ?N"
  proof (rule psubset_card_mono)
    show "finite ?N" by simp
    have "r \<notin> ?P" using root(2) by simp
    then show "?P \<subset> ?N" using root(1) by blast
  qed
  finally have "card (node_id ` ?N) < card ?N" .
  moreover have "card (node_id ` ?N) = card ?N"
    using ids by (intro card_image) (simp add: distinct_map)
  ultimately show False by simp
qed

lemma valid_tree_has_leaf:
  assumes "valid_tree c"
  shows "1 \<le> leaf_count c"
proof -
  obtain r where "r \<in> set (nodes c)" "parent_id r = None"
    using valid_tree_root [OF assms] by blast
  moreover have "distinct (map node_id (nodes c))"
    using assms by (simp add: valid_tree_def)
  ultimately obtain n where "n \<in> set (nodes c)" "children_of c (node_id n) = []"
    using some_leaf by blast
  then have "filter (\<lambda>n. children_of c (node_id n) = []) (nodes c) \<noteq> []"
    by (auto simp: filter_empty_conv)
  then have "length (filter (\<lambda>n. children_of c (node_id n) = []) (nodes c)) \<noteq> 0"
    by simp
  then show ?thesis
    unfolding leaf_count_def by linarith
qed

lemma branching_scenario:
  assumes "nodes t = [r, a, b, x]" and "root_id t = node_id r"
    and "distinct (map node_id [r, a, b, x])"
    and "parent_id r = None" and "parent_id a = Some (node_id r)"
    and "parent_id b = Some (node_id r)" and "parent_id x = Some (node_id a)"
  shows "valid_tree t" and "message_count t = 4" and "leaf_count t = 2"
    and "filter (\<lambda>n. children_of t (node_id n) = []) (nodes t) = [b, x]"
proof -
  show "message_count t = 4"
    using assms(1) by (simp add: message_count_def)
  show leaves: "filter (\<lambda>n. children_of t (node_id n) = []) (nodes t) = [b, x]"
    using assms by (auto simp: children_of_def)
  show "leaf_count t = 2"
    unfolding leaf_count_def leaves by simp
  have look: "lookup_node t (node_id r) = Some r" "lookup_node t (node_id a) = Some a"
    "lookup_node t (node_id b) = Some b" "lookup_node t (node_id x) = Some x"
    using assms(1,3) by (auto simp: lookup_node_def)
  have "reaches_root t (Suc (Suc (Suc (Suc 0)))) (node_id n)" if "n \<in> {r, a, b, x}" for n
    using that assms(2,4-7) look by auto
  then show "valid_tree t"
    using assms look by (simp add: valid_tree_def)
qed

text \<open>
  C6. A valid conversation tree has at least one leaf and at least as many messages as
  leaves; a valid tree of a single node has one leaf and one message; and the tree of a
  root, two children of the root and one child of the first child is valid, has four
  messages and two leaves, the second child and the grandchild.
\<close>

theorem leaf_and_message_counts:
  "(valid_tree c \<longrightarrow> 1 \<le> leaf_count c \<and> leaf_count c \<le> message_count c)
   \<and> (valid_tree c \<and> length (nodes c) = 1 \<longrightarrow> leaf_count c = 1 \<and> message_count c = 1)
   \<and> (nodes t = [r, a, b, x] \<and> root_id t = node_id r
        \<and> distinct (map node_id [r, a, b, x])
        \<and> parent_id r = None \<and> parent_id a = Some (node_id r)
        \<and> parent_id b = Some (node_id r) \<and> parent_id x = Some (node_id a)
        \<longrightarrow> valid_tree t \<and> message_count t = 4 \<and> leaf_count t = 2
            \<and> filter (\<lambda>n. children_of t (node_id n) = []) (nodes t) = [b, x])"
proof (intro conjI impI)
  assume "valid_tree c"
  then show "1 \<le> leaf_count c" by (rule valid_tree_has_leaf)
next
  show "leaf_count c \<le> message_count c" by (rule leaf_count_le_message_count)
next
  assume v: "valid_tree c \<and> length (nodes c) = 1"
  then show m: "message_count c = 1" by (simp add: message_count_def)
  from v have "1 \<le> leaf_count c" by (simp add: valid_tree_has_leaf)
  with m leaf_count_le_message_count [of c] show "leaf_count c = 1" by simp
next
  assume s: "nodes t = [r, a, b, x] \<and> root_id t = node_id r
        \<and> distinct (map node_id [r, a, b, x])
        \<and> parent_id r = None \<and> parent_id a = Some (node_id r)
        \<and> parent_id b = Some (node_id r) \<and> parent_id x = Some (node_id a)"
  from s show "valid_tree t" by (intro branching_scenario(1) [of t r a b x]) simp_all
  from s show "message_count t = 4" by (intro branching_scenario(2) [of t r a b x]) simp_all
  from s show "leaf_count t = 2" by (intro branching_scenario(3) [of t r a b x]) simp_all
  from s show "filter (\<lambda>n. children_of t (node_id n) = []) (nodes t) = [b, x]"
    by (intro branching_scenario(4) [of t r a b x]) simp_all
qed

theorem leaf_and_message_counts_witness:
  "let mk = (\<lambda>n p. \<lparr>node_id = n, parent_id = p, author_role = Assistant,
                content_type = ''text'', plugin_name = None, node_create_time = None,
                text_payload = ''''\<rparr>);
       c = \<lparr>conv_id = ''c1'', title = Some ''single'', nodes = [mk ''R'' None],
            root_id = ''R'', create_time = None, update_time = None\<rparr>;
       t = \<lparr>conv_id = ''c2'', title = Some ''branching'',
            nodes = [mk ''R'' None, mk ''A'' (Some ''R''), mk ''B'' (Some ''R''), mk ''C'' (Some ''A'')],
            root_id = ''R'', create_time = None, update_time = None\<rparr>
   in valid_tree c \<and> length (nodes c) = 1 \<and> leaf_count c = 1 \<and> message_count c = 1
      \<and> valid_tree t \<and> message_count t = 4 \<and> leaf_count t = 2
      \<and> map node_id (filter (\<lambda>n. children_of t (node_id n) = []) (nodes t)) = [''B'', ''C'']"
  (is "Let ?mk (\<lambda>mk. Let (?c mk) (\<lambda>c. Let (?t mk) (?P mk c)))")
proof -
  have c: "valid_tree (?c ?mk)"
    by (simp add: valid_tree_def lookup_node_def)
  have "length (nodes (?c ?mk)) = 1" by simp
  with c show ?thesis
    unfolding Let_def
    using leaf_and_message_counts [of "?c ?mk" "?t ?mk" "?mk ''R'' None" "?mk ''A'' (Some ''R'')"
        "?mk ''B'' (Some ''R'')" "?mk ''C'' (Some ''A'')"]
    by simp
qed

section \<open>The weekly groups partition the dated conversations\<close>

lemma grouped_by_week_lookup:
  "grouped_by_week week_start convs w =
     (if filter (\<lambda>c. map_option week_start (create_time c) = Some w) convs = [] then None
      else Some (filter (\<lambda>c. map_option week_start (create_time c) = Some w) convs))"
proof (induction convs rule: rev_induct)
  case Nil
  then show ?case by (simp add: grouped_by_week_def)
next
  case (snoc c convs)
  have step: "grouped_by_week week_start (convs @ [c])
      = add_to_week week_start (grouped_by_week week_start convs) c"
    by (simp add: grouped_by_week_def)
  show ?case
    unfolding step using snoc.IH
    by (cases "create_time c") (auto simp: add_to_week_def split: option.splits if_splits)
qed

lemma group_members:
  "grouped_by_week week_start convs w = Some cs \<Longrightarrow>
     cs = filter (\<lambda>c. map_option week_start (create_time c) = Some w) convs \<and> cs \<noteq> []"
  by (simp add: grouped_by_week_lookup split: if_splits)

lemma in_group_iff:
  "(\<exists>cs. grouped_by_week week_start convs w = Some cs \<and> c \<in> set cs)
     \<longleftrightarrow> c \<in> set convs \<and> map_option week_start (create_time c) = Some w"
  by (auto simp: grouped_by_week_lookup filter_empty_conv)



text \<open>
  C5. In a collection with unique conversation ids, every conversation that has a
  \<^verbatim>\<open>create_time\<close> is in exactly one weekly group; the id sets of two different groups
  are disjoint; the union of the groups' id sets is the set of the ids of the
  conversations that have a \<^verbatim>\<open>create_time\<close>; a conversation without one is in no
  group; and no group is empty or lists a conversation twice.
\<close>

theorem grouped_by_week_partitions:
  assumes "distinct (map conv_id convs)"
  shows "(\<forall>c\<in>set convs. create_time c \<noteq> None \<longrightarrow>
            (\<exists>!w. \<exists>cs. grouped_by_week week_start convs w = Some cs \<and> c \<in> set cs))
    \<and> (\<forall>w w' cs cs'. w \<noteq> w' \<and> grouped_by_week week_start convs w = Some cs
            \<and> grouped_by_week week_start convs w' = Some cs'
          \<longrightarrow> conv_id ` set cs \<inter> conv_id ` set cs' = {})
    \<and> (\<Union>cs\<in>ran (grouped_by_week week_start convs). conv_id ` set cs)
          = conv_id ` {c \<in> set convs. create_time c \<noteq> None}
    \<and> (\<forall>c\<in>set convs. create_time c = None \<longrightarrow>
            (\<forall>cs\<in>ran (grouped_by_week week_start convs). conv_id c \<notin> conv_id ` set cs))
    \<and> (\<forall>cs\<in>ran (grouped_by_week week_start convs). cs \<noteq> [] \<and> distinct (map conv_id cs))"
proof -
  let ?g = "grouped_by_week week_start convs"
  have inj: "inj_on conv_id (set convs)"
    using assms by (simp add: distinct_map)
  have one: "\<forall>c\<in>set convs. create_time c \<noteq> None \<longrightarrow> (\<exists>!w. \<exists>cs. ?g w = Some cs \<and> c \<in> set cs)"
  proof (intro ballI impI)
    fix c
    assume c: "c \<in> set convs" "create_time c \<noteq> None"
    then obtain t where t: "create_time c = Some t" by blast
    show "\<exists>!w. \<exists>cs. ?g w = Some cs \<and> c \<in> set cs"
      unfolding in_group_iff using c(1) t by auto
  qed
  have disjoint: "\<forall>w w' cs cs'. w \<noteq> w' \<and> ?g w = Some cs \<and> ?g w' = Some cs'
          \<longrightarrow> conv_id ` set cs \<inter> conv_id ` set cs' = {}"
  proof (intro allI impI)
    fix w w' cs cs'
    assume a: "w \<noteq> w' \<and> ?g w = Some cs \<and> ?g w' = Some cs'"
    show "conv_id ` set cs \<inter> conv_id ` set cs' = {}"
    proof (rule ccontr)
      assume "conv_id ` set cs \<inter> conv_id ` set cs' \<noteq> {}"
      then obtain x y where xy: "x \<in> set cs" "y \<in> set cs'" "conv_id x = conv_id y"
        by (auto simp: image_iff)
      from a xy(1) have x: "x \<in> set convs" "map_option week_start (create_time x) = Some w"
        using in_group_iff [of week_start convs w x] by blast+
      from a xy(2) have y: "y \<in> set convs" "map_option week_start (create_time y) = Some w'"
        using in_group_iff [of week_start convs w' y] by blast+
      from inj xy(3) x(1) y(1) have "x = y" by (rule inj_onD)
      with x(2) y(2) a show False by simp
    qed
  qed
  have union: "(\<Union>cs\<in>ran ?g. conv_id ` set cs) = conv_id ` {c \<in> set convs. create_time c \<noteq> None}"
  proof (intro set_eqI iffI)
    fix i
    assume "i \<in> (\<Union>cs\<in>ran ?g. conv_id ` set cs)"
    then obtain w cs c where "?g w = Some cs" "c \<in> set cs" "i = conv_id c"
      by (auto simp: ran_def)
    then have "c \<in> set convs \<and> map_option week_start (create_time c) = Some w"
      using in_group_iff [of week_start convs w c] by blast
    with \<open>i = conv_id c\<close> show "i \<in> conv_id ` {c \<in> set convs. create_time c \<noteq> None}"
      by auto
  next
    fix i
    assume "i \<in> conv_id ` {c \<in> set convs. create_time c \<noteq> None}"
    then obtain c t where c: "c \<in> set convs" "create_time c = Some t" "i = conv_id c"
      by auto
    then obtain cs where "?g (week_start t) = Some cs" "c \<in> set cs"
      using in_group_iff [of week_start convs "week_start t" c] by auto
    with c(3) show "i \<in> (\<Union>cs\<in>ran ?g. conv_id ` set cs)"
      by (auto simp: ran_def)
  qed
  have excluded: "\<forall>c\<in>set convs. create_time c = None \<longrightarrow>
            (\<forall>cs\<in>ran ?g. conv_id c \<notin> conv_id ` set cs)"
  proof (intro ballI impI)
    fix c cs
    assume c: "c \<in> set convs" "create_time c = None" and "cs \<in> ran ?g"
    then obtain w where w: "?g w = Some cs" by (auto simp: ran_def)
    show "conv_id c \<notin> conv_id ` set cs"
    proof
      assume "conv_id c \<in> conv_id ` set cs"
      then obtain y where y: "y \<in> set cs" "conv_id c = conv_id y" by auto
      with w have y': "y \<in> set convs" "map_option week_start (create_time y) = Some w"
        using in_group_iff [of week_start convs w y] by blast+
      from inj y(2) c(1) y'(1) have "c = y" by (rule inj_onD)
      with c(2) y'(2) show False by simp
    qed
  qed
  have groups: "\<forall>cs\<in>ran ?g. cs \<noteq> [] \<and> distinct (map conv_id cs)"
  proof (intro ballI)
    fix cs
    assume "cs \<in> ran ?g"
    then obtain w where w: "?g w = Some cs" by (auto simp: ran_def)
    have cs: "cs = filter (\<lambda>c. map_option week_start (create_time c) = Some w) convs"
      using group_members [OF w] by (rule conjunct1)
    have ne: "cs \<noteq> []"
      using group_members [OF w] by (rule conjunct2)
    have "distinct (map conv_id cs)"
      unfolding cs using assms by (rule distinct_map_filter)
    with ne show "cs \<noteq> [] \<and> distinct (map conv_id cs)" ..
  qed
  show ?thesis
    by (rule conjI [OF one conjI [OF disjoint conjI [OF union conjI [OF excluded groups]]]])
qed

theorem grouped_by_week_partitions_witness:
  "let week_start = (\<lambda>t :: real. real_of_int \<lfloor>t / 604800\<rfloor> * 604800);
       convs = map (\<lambda>(i, t). \<lparr>conv_id = i, title = None, nodes = [], root_id = ''r'',
                                create_time = t, update_time = None\<rparr>)
                 [(''a'', Some 100), (''b'', None), (''c'', Some 700000), (''d'', Some 5000)]
   in distinct (map conv_id convs)
      \<and> (\<Union>cs\<in>ran (grouped_by_week week_start convs). conv_id ` set cs) = {''a'', ''c'', ''d''}
      \<and> map_option (map conv_id) (grouped_by_week week_start convs 0) = Some [''a'', ''d'']
      \<and> map_option (map conv_id) (grouped_by_week week_start convs 604800) = Some [''c'']"
  (is "Let ?ws (\<lambda>ws. Let ?convs (?P ws))")
proof -
  have h: "distinct (map conv_id ?convs)" by simp
  have w: "?ws 100 = 0" "?ws 5000 = 0" "?ws 700000 = 604800" by simp_all
  have "{c \<in> set ?convs. create_time c \<noteq> None}
      = set (filter (\<lambda>c. create_time c \<noteq> None) ?convs)"
    by (rule set_filter [symmetric])
  then have "conv_id ` {c \<in> set ?convs. create_time c \<noteq> None} = {''a'', ''c'', ''d''}"
    by simp
  then have u: "(\<Union>cs\<in>ran (grouped_by_week ?ws ?convs). conv_id ` set cs) = {''a'', ''c'', ''d''}"
    using grouped_by_week_partitions [OF h, of ?ws] by simp
  have g0: "map_option (map conv_id) (grouped_by_week ?ws ?convs 0) = Some [''a'', ''d'']"
    by (simp add: grouped_by_week_def add_to_week_def)
  have g1: "map_option (map conv_id) (grouped_by_week ?ws ?convs 604800) = Some [''c'']"
    by (simp add: grouped_by_week_def add_to_week_def)
  show ?thesis
    unfolding Let_def by (rule conjI [OF h conjI [OF u conjI [OF g0 g1]]])
qed

section \<open>Sanitized titles and file names\<close>








end
